theory Spec2Isabelle
  imports Complex_Main "HOL-Library.AList" "HOL-Library.Char_ord" "HOL-Library.List_Lexorder"
begin

chapter \<open>GAANBOT: queue, playback state, cache and reconnection\<close>

text \<open>
  A shallow embedding of \<^verbatim>\<open>utils/queue.py\<close>, \<^verbatim>\<open>utils/player.py\<close>,
  \<^verbatim>\<open>utils/cache_manager.py\<close> and the reconnection driver of \<^verbatim>\<open>utils/voice.py\<close>.
  Python objects are records, dictionaries are maps (association lists where the insertion
  order decides a result), exceptions are the left summand of a sum, and every reading of
  the clock (\<^verbatim>\<open>time.time()\<close>) is a parameter of the operation that reads it. Timestamps
  are real numbers. An operation runs from its call to its return with no other task in
  between.
\<close>

section \<open>Python lists\<close>

text \<open>
  The two exceptions that a list method raises on a bad index. An index is passed to the
  method as a machine integer of 64 bits (CPython on a 64-bit platform): an integer that
  does not fit raises \<^verbatim>\<open>OverflowError\<close>. A Python list has fewer than \<open>2 ^ 63\<close>
  elements, so an index that is in range always fits; the definitions test the range first.
\<close>

datatype py_error = IndexError | OverflowError

definition fits_ssize_t :: "int \<Rightarrow> bool" where
  "fits_ssize_t i \<longleftrightarrow> - (2 ^ 63) \<le> i \<and> i < 2 ^ 63"

text \<open>
  \<^verbatim>\<open>list.pop(i)\<close>: a negative index counts from the end; an index that is still out of
  range raises \<^verbatim>\<open>IndexError\<close>. The result is the element and the list without it.
\<close>

definition list_pop :: "'a list \<Rightarrow> int \<Rightarrow> py_error + ('a \<times> 'a list)" where
  "list_pop xs i =
     (let n = int (length xs);
          j = (if i < 0 then i + n else i)
      in if 0 \<le> j \<and> j < n
         then Inr (xs ! nat j, take (nat j) xs @ drop (Suc (nat j)) xs)
         else if fits_ssize_t i then Inl IndexError else Inl OverflowError)"

text \<open>
  \<^verbatim>\<open>list.insert(i, x)\<close>: a negative index counts from the end and the position is
  clamped to \<open>0 .. len\<close>; no index that fits raises.
\<close>

definition list_insert :: "'a list \<Rightarrow> int \<Rightarrow> 'a \<Rightarrow> py_error + 'a list" where
  "list_insert xs i x =
     (let n = int (length xs)
      in if (i < - n \<or> n < i) \<and> \<not> fits_ssize_t i then Inl OverflowError
         else (let j = (if i < 0 then max 0 (i + n) else min i n)
               in Inr (take (nat j) xs @ x # drop (nat j) xs)))"

section \<open>The queue manager (\<^verbatim>\<open>utils/queue.py\<close>)\<close>

record ('i, 'r) queue_entry =
  song_info :: 'i
  requester :: 'r

text \<open>
  \<^verbatim>\<open>queues\<close> is a \<^verbatim>\<open>defaultdict(list)\<close> keyed by the guild id: reading a missing key
  stores an empty list under it and returns that list.
\<close>

record ('i, 'r) queue_manager =
  queues :: "int \<rightharpoonup> ('i, 'r) queue_entry list"
  max_queue_size :: int

definition QueueManager :: "('i, 'r) queue_manager" where
  "QueueManager = \<lparr>queues = Map.empty, max_queue_size = 500\<rparr>"

definition queue_of :: "('i, 'r) queue_manager \<Rightarrow> int \<Rightarrow> ('i, 'r) queue_entry list" where
  "queue_of qm guild_id = (case queues qm guild_id of None \<Rightarrow> [] | Some q \<Rightarrow> q)"

definition touch :: "('i, 'r) queue_manager \<Rightarrow> int \<Rightarrow> ('i, 'r) queue_manager" where
  "touch qm guild_id =
     (case queues qm guild_id of
        None \<Rightarrow> qm\<lparr>queues := (queues qm)(guild_id \<mapsto> [])\<rparr>
      | Some q \<Rightarrow> qm)"

definition add_song ::
  "('i, 'r) queue_manager \<Rightarrow> int \<Rightarrow> 'i \<Rightarrow> 'r \<Rightarrow> bool \<times> ('i, 'r) queue_manager" where
  "add_song qm guild_id info req =
     (let qm1 = touch qm guild_id;
          q = queue_of qm1 guild_id
      in if max_queue_size qm1 \<le> int (length q) then (False, qm1)
         else (True, qm1\<lparr>queues := (queues qm1)
                 (guild_id \<mapsto> q @ [\<lparr>song_info = info, requester = req\<rparr>])\<rparr>))"

text \<open>
  \<^verbatim>\<open>remove_song\<close> and \<^verbatim>\<open>move_song\<close> return a boolean or raise: they catch
  \<^verbatim>\<open>IndexError\<close> only. In \<^verbatim>\<open>move_song\<close> the entry is out of the list when
  \<^verbatim>\<open>insert\<close> runs.
\<close>

definition remove_song ::
  "('i, 'r) queue_manager \<Rightarrow> int \<Rightarrow> int \<Rightarrow> (py_error + bool) \<times> ('i, 'r) queue_manager" where
  "remove_song qm guild_id index =
     (let qm1 = touch qm guild_id
      in case list_pop (queue_of qm1 guild_id) index of
           Inl IndexError \<Rightarrow> (Inr False, qm1)
         | Inl OverflowError \<Rightarrow> (Inl OverflowError, qm1)
         | Inr (song, q') \<Rightarrow> (Inr True, qm1\<lparr>queues := (queues qm1)(guild_id \<mapsto> q')\<rparr>))"

definition move_song ::
  "('i, 'r) queue_manager \<Rightarrow> int \<Rightarrow> int \<Rightarrow> int
     \<Rightarrow> (py_error + bool) \<times> ('i, 'r) queue_manager" where
  "move_song qm guild_id old_index new_index =
     (let qm1 = touch qm guild_id;
          queue = queue_of qm1 guild_id
      in if \<not> (0 \<le> old_index \<and> old_index < int (length queue)
                \<and> 0 \<le> new_index \<and> new_index < int (length queue))
         then (Inr False, qm1)
         else (case list_pop queue old_index of
                 Inl IndexError \<Rightarrow> (Inr False, qm1)
               | Inl OverflowError \<Rightarrow> (Inl OverflowError, qm1)
               | Inr (song, q') \<Rightarrow>
                   (let qm2 = qm1\<lparr>queues := (queues qm1)(guild_id \<mapsto> q')\<rparr>
                    in case list_insert q' new_index song of
                         Inl IndexError \<Rightarrow> (Inr False, qm2)
                       | Inl OverflowError \<Rightarrow> (Inl OverflowError, qm2)
                       | Inr q'' \<Rightarrow>
                           (Inr True, qm2\<lparr>queues := (queues qm2)(guild_id \<mapsto> q'')\<rparr>))))"

section \<open>Playback state (\<^verbatim>\<open>utils/player.py\<close>)\<close>

text \<open>
  The dictionary the extractor returns (\<^verbatim>\<open>_extract_song_info_impl\<close>), the record kept
  for the song that is playing (\<^verbatim>\<open>update_song\<close>; its keys carry the prefix \<open>cur_\<close>
  here) and the three queries of a voice client that the code makes.
\<close>

record track_info =
  url :: string
  title :: string
  duration :: real
  thumbnail :: "string option"
  webpage_url :: string
  uploader :: string
  extracted_at :: real

record 'r current_song =
  cur_title :: string
  cur_duration :: real
  cur_thumbnail :: "string option"
  cur_url :: string
  cur_uploader :: string
  cur_requester :: 'r

record voice_client =
  is_connected :: bool
  is_playing :: bool
  is_paused :: bool

record 'r player_state =
  current_songs :: "int \<rightharpoonup> 'r current_song"
  voice_clients :: "int \<rightharpoonup> voice_client"
  song_start_times :: "int \<rightharpoonup> real"
  pause_durations :: "int \<rightharpoonup> real"
  last_pause_time :: "int \<rightharpoonup> real"

definition PlayerState :: "'r player_state" where
  "PlayerState = \<lparr>current_songs = Map.empty, voice_clients = Map.empty,
     song_start_times = Map.empty, pause_durations = Map.empty, last_pause_time = Map.empty\<rparr>"

text \<open>
  \<^verbatim>\<open>create_progress_bar\<close> up to the line that computes \<^verbatim>\<open>elapsed\<close>: \<open>None\<close> where the
  method returns \<^verbatim>\<open>None\<close>, otherwise the elapsed time that the bar renders. The three
  clock readings are the default of the start time, the one of the running pause, and the
  one \<^verbatim>\<open>elapsed\<close> is computed from.
\<close>

definition create_progress_bar_elapsed ::
  "'r player_state \<Rightarrow> int \<Rightarrow> real \<Rightarrow> real \<Rightarrow> real \<Rightarrow> real option" where
  "create_progress_bar_elapsed ps guild_id now1 now2 now3 =
     (case current_songs ps guild_id of
        None \<Rightarrow> None
      | Some song \<Rightarrow>
         (case voice_clients ps guild_id of
            None \<Rightarrow> None
          | Some vc \<Rightarrow>
             (let start_time = (case song_start_times ps guild_id of
                                  None \<Rightarrow> now1 | Some t \<Rightarrow> t);
                  pause_duration = (case pause_durations ps guild_id of
                                  None \<Rightarrow> 0 | Some d \<Rightarrow> d);
                  pause_duration' = (case last_pause_time ps guild_id of
                                  None \<Rightarrow> pause_duration
                                | Some p \<Rightarrow> if is_paused vc
                                     then pause_duration + (now2 - p) else pause_duration)
              in Some (now3 - start_time - pause_duration'))))"

definition update_song ::
  "'r player_state \<Rightarrow> int \<Rightarrow> track_info \<Rightarrow> 'r \<Rightarrow> real \<Rightarrow> 'r player_state" where
  "update_song ps guild_id info req now =
     ps\<lparr>current_songs := (current_songs ps)(guild_id \<mapsto>
            \<lparr>cur_title = title info, cur_duration = duration info,
             cur_thumbnail = thumbnail info, cur_url = webpage_url info,
             cur_uploader = uploader info, cur_requester = req\<rparr>),
        song_start_times := (song_start_times ps)(guild_id \<mapsto> now),
        pause_durations := (pause_durations ps)(guild_id \<mapsto> 0),
        last_pause_time := (last_pause_time ps)(guild_id := None)\<rparr>"

definition handle_pause :: "'r player_state \<Rightarrow> int \<Rightarrow> real \<Rightarrow> 'r player_state" where
  "handle_pause ps guild_id now =
     ps\<lparr>last_pause_time := (last_pause_time ps)(guild_id \<mapsto> now)\<rparr>"

definition handle_resume :: "'r player_state \<Rightarrow> int \<Rightarrow> real \<Rightarrow> 'r player_state" where
  "handle_resume ps guild_id now =
     (case last_pause_time ps guild_id of
        None \<Rightarrow> ps
      | Some pause_time \<Rightarrow>
          ps\<lparr>last_pause_time := (last_pause_time ps)(guild_id := None),
             pause_durations := (pause_durations ps)(guild_id \<mapsto>
                (case pause_durations ps guild_id of None \<Rightarrow> 0 | Some d \<Rightarrow> d)
                  + (now - pause_time))\<rparr>)"



definition update_voice_client ::
  "'r player_state \<Rightarrow> int \<Rightarrow> voice_client \<Rightarrow> 'r player_state" where
  "update_voice_client ps guild_id vc =
     ps\<lparr>voice_clients := (voice_clients ps)(guild_id \<mapsto> vc)\<rparr>"


text \<open>
  A run of pause/resume cycles: each pair is the clock reading of a \<^verbatim>\<open>handle_pause\<close> and
  the one of the \<^verbatim>\<open>handle_resume\<close> that closes it. \<open>total_pause\<close> is the time spent
  paused over the run.
\<close>

fun pause_resume_cycles ::
  "'r player_state \<Rightarrow> int \<Rightarrow> (real \<times> real) list \<Rightarrow> 'r player_state" where
  "pause_resume_cycles ps guild_id [] = ps"
| "pause_resume_cycles ps guild_id ((p, r) # cycles) =
     pause_resume_cycles (handle_resume (handle_pause ps guild_id p) guild_id r) guild_id cycles"

definition total_pause :: "(real \<times> real) list \<Rightarrow> real" where
  "total_pause cycles = sum_list (map (\<lambda>(p, r). r - p) cycles)"

section \<open>The cache (\<^verbatim>\<open>utils/cache_manager.py\<close>)\<close>

text \<open>
  The field \<^verbatim>\<open>value\<close> of an entry is \<open>cvalue\<close> here. \<^verbatim>\<open>CacheEntry(value, ttl)\<close> reads
  the clock once, and so does \<^verbatim>\<open>is_expired\<close>.
\<close>

record 'v cache_entry =
  cvalue :: 'v
  expires_at :: real

definition CacheEntry :: "'v \<Rightarrow> int \<Rightarrow> real \<Rightarrow> 'v cache_entry" where
  "CacheEntry v ttl_secs now = \<lparr>cvalue = v, expires_at = now + real_of_int ttl_secs\<rparr>"

definition is_expired :: "'v cache_entry \<Rightarrow> real \<Rightarrow> bool" where
  "is_expired entry now \<longleftrightarrow> expires_at entry < now"

text \<open>
  The mapping is a Python \<^verbatim>\<open>dict\<close>, whose iteration order is the order of first
  insertion: an association list, written with \<open>AList.update\<close> (replace in place, or
  append) and \<open>AList.delete\<close>, read with \<open>map_of\<close>.
\<close>

record 'v async_lru_cache =
  name :: string
  cache :: "(string \<times> 'v cache_entry) list"
  maxsize :: int
  ttl :: int
  hits :: int
  misses :: int
  last_cleanup :: real

definition AsyncLRUCache :: "string \<Rightarrow> int \<Rightarrow> int \<Rightarrow> 'v async_lru_cache" where
  "AsyncLRUCache nm maxsize_arg ttl_arg =
     \<lparr>name = nm, cache = [], maxsize = maxsize_arg, ttl = ttl_arg,
      hits = 0, misses = 0, last_cleanup = 0\<rparr>"

fun join :: "string \<Rightarrow> string list \<Rightarrow> string" where
  "join sep [] = []"
| "join sep [x] = x"
| "join sep (x # y # ys) = x @ sep @ join sep (y # ys)"

text \<open>
  \<^verbatim>\<open>_generate_key\<close>. The positional arguments are given as their \<^verbatim>\<open>str()\<close>, the keyword
  arguments as pairs of the name and the \<^verbatim>\<open>str()\<close> of the value; the names of a call are
  distinct, so sorting the pairs is sorting by name.
\<close>

definition generate_key :: "string \<Rightarrow> string list \<Rightarrow> (string \<times> string) list \<Rightarrow> string" where
  "generate_key func_name args kwargs =
     (let args_str = join '','' args;
          kwargs_str = join '','' (map (\<lambda>(k, v). k @ ''='' @ v) (sort_key fst kwargs))
      in func_name @ '':'' @ args_str @ '':'' @ kwargs_str)"

text \<open>
  \<^verbatim>\<open>entry = self.cache.get(cache_key); if entry and not entry.is_expired(): ...\<close>: the
  value of an entry that is present and not expired.
\<close>

definition lookup_fresh :: "'v async_lru_cache \<Rightarrow> string \<Rightarrow> real \<Rightarrow> 'v option" where
  "lookup_fresh c cache_key now =
     (case map_of (cache c) cache_key of
        None \<Rightarrow> None
      | Some entry \<Rightarrow> if is_expired entry now then None else Some (cvalue entry))"

text \<open>
  The trimming step of \<^verbatim>\<open>get_or_compute\<close>: the keys in dictionary order, sorted (stably)
  by the expiry of their entries, the first \<open>len - maxsize\<close> of them deleted.
\<close>

definition oldest_keys :: "(string \<times> 'v cache_entry) list \<Rightarrow> int \<Rightarrow> string list" where
  "oldest_keys d maxsize_arg =
     take (nat (int (length d) - maxsize_arg))
          (sort_key (\<lambda>k. expires_at (the (map_of d k))) (map fst d))"

definition trim ::
  "(string \<times> 'v cache_entry) list \<Rightarrow> int \<Rightarrow> (string \<times> 'v cache_entry) list" where
  "trim d maxsize_arg =
     (if maxsize_arg < int (length d) then fold AList.delete (oldest_keys d maxsize_arg) d
      else d)"

text \<open>
  \<^verbatim>\<open>get_or_compute(func, *args, **kwargs)\<close>. The call \<^verbatim>\<open>func(*args, **kwargs)\<close> is a
  computation on the state \<open>'w\<close> of the outside world that returns the value or raises;
  the result of \<^verbatim>\<open>get_or_compute\<close> is what it returns or raises, the cache and the
  world after it. The clock is read by the check before the lock, by the check under the
  lock and by the entry that is stored.
\<close>

definition get_or_compute ::
  "'v async_lru_cache \<Rightarrow> string \<Rightarrow> ('w \<Rightarrow> ('e + 'v) \<times> 'w) \<Rightarrow> string list
     \<Rightarrow> (string \<times> string) list \<Rightarrow> 'w \<Rightarrow> real \<Rightarrow> real \<Rightarrow> real
     \<Rightarrow> ('e + 'v) \<times> 'v async_lru_cache \<times> 'w" where
  "get_or_compute c func_name func args kwargs w now1 now2 now3 =
     (let cache_key = generate_key func_name args kwargs
      in case lookup_fresh c cache_key now1 of
           Some v \<Rightarrow> (Inr v, c\<lparr>hits := hits c + 1\<rparr>, w)
         | None \<Rightarrow>
            (case lookup_fresh c cache_key now2 of
               Some v \<Rightarrow> (Inr v, c\<lparr>hits := hits c + 1\<rparr>, w)
             | None \<Rightarrow>
                (let c1 = c\<lparr>misses := misses c + 1\<rparr>
                 in case func w of
                      (Inl e, w') \<Rightarrow> (Inl e, c1, w')
                    | (Inr result, w') \<Rightarrow>
                        (Inr result,
                         c1\<lparr>cache := trim (AList.update cache_key
                                 (CacheEntry result (ttl c1) now3) (cache c1)) (maxsize c1)\<rparr>,
                         w'))))"

text \<open>
  \<^verbatim>\<open>cleanup_expired\<close>. The comprehension goes through the entries in dictionary order
  and calls \<^verbatim>\<open>is_expired\<close> on each, which reads the clock: \<open>clock i\<close> is the reading
  for the entry at position \<open>i\<close>. The last reading is the one stored in
  \<^verbatim>\<open>last_cleanup\<close>.
\<close>

fun expired_keys :: "(string \<times> 'v cache_entry) list \<Rightarrow> (nat \<Rightarrow> real) \<Rightarrow> nat \<Rightarrow> string list" where
  "expired_keys [] clock i = []"
| "expired_keys ((key, entry) # rest) clock i =
     (if is_expired entry (clock i) then key # expired_keys rest clock (Suc i)
      else expired_keys rest clock (Suc i))"

definition cleanup_expired ::
  "'v async_lru_cache \<Rightarrow> (nat \<Rightarrow> real) \<Rightarrow> real \<Rightarrow> 'v async_lru_cache" where
  "cleanup_expired c clock now_end =
     c\<lparr>cache := fold AList.delete (expired_keys (cache c) clock 0) (cache c),
       last_cleanup := now_end\<rparr>"

text \<open>
  A sequence of \<^verbatim>\<open>get_or_compute\<close> calls, each with its function, its arguments and its
  three clock readings, run one after the other on the cache and the world.
\<close>

type_synonym ('w, 'e, 'v) cache_call =
  "string \<times> ('w \<Rightarrow> ('e + 'v) \<times> 'w) \<times> string list \<times> (string \<times> string) list \<times> real \<times> real \<times> real"

fun run_calls ::
  "'v async_lru_cache \<Rightarrow> 'w \<Rightarrow> ('w, 'e, 'v) cache_call list \<Rightarrow> 'v async_lru_cache \<times> 'w" where
  "run_calls c w [] = (c, w)"
| "run_calls c w ((func_name, func, args, kwargs, now1, now2, now3) # calls) =
     (case get_or_compute c func_name func args kwargs w now1 now2 now3 of
        (r, c', w') \<Rightarrow> run_calls c' w' calls)"

text \<open>
  What a call raises is an instance of \<^verbatim>\<open>Exception\<close>, which \<^verbatim>\<open>except Exception\<close>
  catches, or of \<^verbatim>\<open>BaseException\<close> only (\<^verbatim>\<open>asyncio.CancelledError\<close>,
  \<^verbatim>\<open>KeyboardInterrupt\<close>, \<^verbatim>\<open>SystemExit\<close>), which passes that handler.
\<close>

datatype 'x raised = Exception 'x | BaseException 'x

text \<open>
  \<^verbatim>\<open>PlayerState.extract_song_info\<close>: the extraction through the cache, and the direct
  extraction when the cache call raises an \<^verbatim>\<open>Exception\<close>. A raised value that is not
  an \<^verbatim>\<open>Exception\<close> leaves both handlers as it is. \<open>impl\<close> is
  \<^verbatim>\<open>_extract_song_info_impl\<close>.
\<close>

definition extract_song_info ::
  "'v async_lru_cache \<Rightarrow> (string \<Rightarrow> 'w \<Rightarrow> ('x raised + 'v) \<times> 'w) \<Rightarrow> string \<Rightarrow> 'w
     \<Rightarrow> real \<Rightarrow> real \<Rightarrow> real \<Rightarrow> ('x raised + 'v) \<times> 'v async_lru_cache \<times> 'w" where
  "extract_song_info youtube_cache impl query w now1 now2 now3 =
     (case get_or_compute youtube_cache ''_extract_song_info_impl'' (impl query) [query] []
             w now1 now2 now3 of
        (Inr info, c', w') \<Rightarrow> (Inr info, c', w')
      | (Inl (Exception cache_error), c', w') \<Rightarrow>
          (case impl query w' of (r, w'') \<Rightarrow> (r, c', w''))
      | (Inl (BaseException b), c', w') \<Rightarrow> (Inl (BaseException b), c', w'))"

text \<open>
  An extraction at which the task is cancelled, for a concrete run: it raises
  \<^verbatim>\<open>asyncio.CancelledError\<close>, and the world counts its calls.
\<close>

definition cancelled_extraction :: "string \<Rightarrow> nat \<Rightarrow> (string raised + 'v) \<times> nat" where
  "cancelled_extraction query calls = (Inl (BaseException ''CancelledError''), Suc calls)"

section \<open>The reconnection driver (\<^verbatim>\<open>utils/voice.py\<close>)\<close>













section \<open>Properties of the queue manager\<close>

lemma queue_of_touch: "queue_of (touch qm g) g = queue_of qm g"
  by (simp add: queue_of_def touch_def split: option.splits)

lemma max_queue_size_touch: "max_queue_size (touch qm g) = max_queue_size qm"
  by (simp add: touch_def split: option.splits)

lemma touch_stored: "queue_of qm g \<noteq> [] \<Longrightarrow> touch qm g = qm"
  by (simp add: queue_of_def touch_def split: option.splits)

lemma queue_of_store:
  "queue_of (qm\<lparr>queues := (queues qm)(g \<mapsto> q)\<rparr>) g = q"
  by (simp add: queue_of_def)

lemma queue_of_touch_other: "queue_of (touch qm g) g' = queue_of qm g'"
  by (simp add: queue_of_def touch_def split: option.splits)

lemma list_pop_valid:
  "0 \<le> i \<Longrightarrow> i < int (length xs) \<Longrightarrow>
   list_pop xs i = Inr (xs ! nat i, take (nat i) xs @ drop (Suc (nat i)) xs)"
  by (simp add: list_pop_def Let_def)

lemma list_pop_beyond:
  "int (length xs) \<le> i \<Longrightarrow>
   list_pop xs i = (if fits_ssize_t i then Inl IndexError else Inl OverflowError)"
  by (simp add: list_pop_def Let_def)

lemma list_insert_valid:
  "0 \<le> j \<Longrightarrow> j \<le> int (length xs) \<Longrightarrow>
   list_insert xs j x = Inr (take (nat j) xs @ x # drop (nat j) xs)"
  by (simp add: list_insert_def Let_def min_def)

text \<open>
  C5. A queue that holds exactly 500 entries rejects \<^verbatim>\<open>add_song\<close>: the call returns
  \<open>False\<close> and the manager is left as it was, so the queue still has its 500 entries in
  the same order. A queue with fewer than 500 entries gets the new entry appended at its
  end and the call returns \<open>True\<close>.
\<close>

theorem add_song_bounded:
  "max_queue_size qm = 500 \<Longrightarrow>
     (length (queue_of qm g) = 500 \<longrightarrow> add_song qm g info req = (False, qm)) \<and>
     (length (queue_of qm g) < 500 \<longrightarrow>
        fst (add_song qm g info req) = True \<and>
        queue_of (snd (add_song qm g info req)) g
          = queue_of qm g @ [\<lparr>song_info = info, requester = req\<rparr>])"
proof (intro conjI impI)
  assume m: "max_queue_size qm = 500" and len: "length (queue_of qm g) = 500"
  from len have "queue_of qm g \<noteq> []" by auto
  then have "touch qm g = qm" by (rule touch_stored)
  with len m show "add_song qm g info req = (False, qm)"
    by (simp add: add_song_def Let_def)
next
  assume m: "max_queue_size qm = 500" and len: "length (queue_of qm g) < 500"
  then show "fst (add_song qm g info req) = True"
    by (simp add: add_song_def Let_def queue_of_touch max_queue_size_touch)
next
  assume m: "max_queue_size qm = 500" and len: "length (queue_of qm g) < 500"
  then show "queue_of (snd (add_song qm g info req)) g
          = queue_of qm g @ [\<lparr>song_info = info, requester = req\<rparr>]"
    by (simp add: add_song_def Let_def queue_of_touch max_queue_size_touch queue_of_store)
qed

theorem add_song_bounded_witness:
  "max_queue_size \<lparr>queues = [7 \<mapsto> replicate 500 \<lparr>song_info = ''s'', requester = ''u''\<rparr>],
                   max_queue_size = 500\<rparr> = 500
   \<and> length (queue_of \<lparr>queues = [7 \<mapsto> replicate 500 \<lparr>song_info = ''s'', requester = ''u''\<rparr>],
                   max_queue_size = 500\<rparr> 7) = 500
   \<and> add_song \<lparr>queues = [7 \<mapsto> replicate 500 \<lparr>song_info = ''s'', requester = ''u''\<rparr>],
                   max_queue_size = 500\<rparr> 7 ''t'' ''v''
       = (False, \<lparr>queues = [7 \<mapsto> replicate 500 \<lparr>song_info = ''s'', requester = ''u''\<rparr>],
                   max_queue_size = 500\<rparr>)
   \<and> max_queue_size (QueueManager :: (string, string) queue_manager) = 500
   \<and> length (queue_of (QueueManager :: (string, string) queue_manager) 7) < 500
   \<and> fst (add_song QueueManager 7 ''t'' ''v'') = True
   \<and> queue_of (snd (add_song QueueManager 7 ''t'' ''v'')) 7
       = [\<lparr>song_info = ''t'', requester = ''v''\<rparr>]"
  using add_song_bounded [of "\<lparr>queues = [7 \<mapsto> replicate 500
                                   \<lparr>song_info = ''s'', requester = ''u''\<rparr>],
                              max_queue_size = 500\<rparr>" 7 "''t''" "''v''"]
        add_song_bounded [of "QueueManager :: (string, string) queue_manager" 7 "''t''" "''v''"]
  by (simp add: queue_of_def QueueManager_def)

text \<open>
  \<^verbatim>\<open>remove_song\<close> on the indices that are in range (the entry at that position goes, the
  call returns \<open>True\<close>) and on those at or beyond the length (the call returns \<open>False\<close>,
  or raises \<^verbatim>\<open>OverflowError\<close> when the index does not fit; every queue reads as before).
\<close>

lemma remove_song_in_range:
  assumes "0 \<le> i" "i < int (length (queue_of qm g))"
  shows "fst (remove_song qm g i) = Inr True"
    and "queue_of (snd (remove_song qm g i)) g
           = take (nat i) (queue_of qm g) @ drop (Suc (nat i)) (queue_of qm g)"
  using assms
  by (simp_all add: remove_song_def Let_def queue_of_touch list_pop_valid queue_of_store)

lemma remove_song_beyond:
  assumes "int (length (queue_of qm g)) \<le> i"
  shows "fst (remove_song qm g i) = (if fits_ssize_t i then Inr False else Inl OverflowError)"
    and "queue_of (snd (remove_song qm g i)) g' = queue_of qm g'"
  using assms
  by (simp_all add: remove_song_def Let_def queue_of_touch list_pop_beyond queue_of_touch_other)

text \<open>
  C6. The claim says that \<^verbatim>\<open>remove_song\<close> with an index outside \<open>0 \<le> i < L\<close> returns
  \<open>False\<close> and leaves the queue as it was. \<^verbatim>\<open>list.pop\<close> takes a negative index from the
  end of the list, and \<^verbatim>\<open>remove_song\<close> has no check of its own (\<^verbatim>\<open>move_song\<close> has one):
  on a queue of three entries the index \<open>-1\<close> removes the last entry and the call
  returns \<open>True\<close>.
\<close>

theorem remove_song_negative_index:
  "remove_song \<lparr>queues = [7 \<mapsto> [\<lparr>song_info = ''a'', requester = ''u''\<rparr>,
                                \<lparr>song_info = ''b'', requester = ''u''\<rparr>,
                                \<lparr>song_info = ''c'', requester = ''v''\<rparr>]],
                max_queue_size = 500\<rparr> 7 (-1)
     = (Inr True, \<lparr>queues = [7 \<mapsto> [\<lparr>song_info = ''a'', requester = ''u''\<rparr>,
                                 \<lparr>song_info = ''b'', requester = ''u''\<rparr>]],
               max_queue_size = 500\<rparr>)"
  by (simp add: remove_song_def touch_def queue_of_def list_pop_def Let_def)

text \<open>
  Taking one entry out of a list and putting it back at a position: the list keeps its
  length, the entry is at that position, and the list without that position is the
  original without the entry.
\<close>

lemma move_valid_aux:
  assumes "i < length q" "j < length q"
  defines "q1 \<equiv> take i q @ drop (Suc i) q"
  defines "q' \<equiv> take j q1 @ (q ! i) # drop j q1"
  shows "length q' = length q" "q' ! j = q ! i" "take j q' @ drop (Suc j) q' = q1"
proof -
  have l1: "length q1 = length q - 1" using assms by (simp add: q1_def)
  then have j1: "j \<le> length q1" using assms by simp
  show "length q' = length q" using assms l1 j1 by (simp add: q'_def)
  have lt: "length (take j q1) = j" using j1 by simp
  show "q' ! j = q ! i" unfolding q'_def using lt by (metis nth_append_length)
  show "take j q' @ drop (Suc j) q' = q1" unfolding q'_def using lt j1 by simp
qed

text \<open>
  C7. With both indices in \<open>0 \<le> i, j < L\<close>, \<^verbatim>\<open>move_song\<close> returns \<open>True\<close>; the queue
  keeps its length, the entry that was at position \<open>i\<close> is at position \<open>j\<close>, and the
  other entries are in the order they had (the new queue without position \<open>j\<close> is the
  old queue without position \<open>i\<close>). With an index out of bounds it returns \<open>False\<close> and
  every queue reads as before.
\<close>

theorem move_song_places_entry:
  "(0 \<le> i \<and> i < int (length (queue_of qm g)) \<and> 0 \<le> j \<and> j < int (length (queue_of qm g)) \<longrightarrow>
      fst (move_song qm g i j) = Inr True \<and>
      length (queue_of (snd (move_song qm g i j)) g) = length (queue_of qm g) \<and>
      queue_of (snd (move_song qm g i j)) g ! nat j = queue_of qm g ! nat i \<and>
      take (nat j) (queue_of (snd (move_song qm g i j)) g)
          @ drop (Suc (nat j)) (queue_of (snd (move_song qm g i j)) g)
        = take (nat i) (queue_of qm g) @ drop (Suc (nat i)) (queue_of qm g))
   \<and> (\<not> (0 \<le> i \<and> i < int (length (queue_of qm g)) \<and> 0 \<le> j \<and> j < int (length (queue_of qm g))) \<longrightarrow>
      fst (move_song qm g i j) = Inr False \<and>
      (\<forall>g'. queue_of (snd (move_song qm g i j)) g' = queue_of qm g'))"
proof (intro conjI impI)
  assume v: "0 \<le> i \<and> i < int (length (queue_of qm g)) \<and> 0 \<le> j \<and> j < int (length (queue_of qm g))"
  define q where "q = queue_of qm g"
  define q1 where "q1 = take (nat i) q @ drop (Suc (nat i)) q"
  define q' where "q' = take (nat j) q1 @ (q ! nat i) # drop (nat j) q1"
  have ni: "nat i < length q" and nj: "nat j < length q" using v by (auto simp: q_def)
  have pop: "list_pop q i = Inr (q ! nat i, q1)"
    using v by (simp add: list_pop_valid q_def q1_def)
  have "length q1 = length q - 1" using ni by (simp add: q1_def)
  then have "j \<le> int (length q1)" using nj v by auto
  then have ins: "list_insert q1 j (q ! nat i) = Inr q'"
    using v by (simp add: list_insert_valid q'_def)
  have res: "move_song qm g i j
      = (Inr True, (touch qm g)\<lparr>queues := (queues (touch qm g))(g \<mapsto> q')\<rparr>)"
    using v pop ins by (simp add: move_song_def Let_def queue_of_touch q_def)
  then have q'_eq: "queue_of (snd (move_song qm g i j)) g = q'"
    by (simp add: queue_of_store)
  note aux = move_valid_aux [OF ni nj, folded q1_def, folded q'_def]
  show "fst (move_song qm g i j) = Inr True" using res by simp
  show "length (queue_of (snd (move_song qm g i j)) g) = length (queue_of qm g)"
    using aux(1) q'_eq by (simp add: q_def)
  show "queue_of (snd (move_song qm g i j)) g ! nat j = queue_of qm g ! nat i"
    using aux(2) q'_eq by (simp add: q_def)
  show "take (nat j) (queue_of (snd (move_song qm g i j)) g)
          @ drop (Suc (nat j)) (queue_of (snd (move_song qm g i j)) g)
        = take (nat i) (queue_of qm g) @ drop (Suc (nat i)) (queue_of qm g)"
    using aux(3) q'_eq by (simp add: q_def q1_def)
next
  assume nv: "\<not> (0 \<le> i \<and> i < int (length (queue_of qm g)) \<and> 0 \<le> j \<and> j < int (length (queue_of qm g)))"
  then have res: "move_song qm g i j = (Inr False, touch qm g)"
    by (simp add: move_song_def Let_def queue_of_touch)
  show "fst (move_song qm g i j) = Inr False" using res by simp
  show "\<forall>g'. queue_of (snd (move_song qm g i j)) g' = queue_of qm g'"
    using res by (simp add: queue_of_touch_other)
qed

theorem move_song_places_entry_witness:
  "(0 \<le> (0::int)
      \<and> 0 < int (length (queue_of \<lparr>queues = [7 \<mapsto> [\<lparr>song_info = ''a'', requester = ''u''\<rparr>,
                \<lparr>song_info = ''b'', requester = ''u''\<rparr>, \<lparr>song_info = ''c'', requester = ''v''\<rparr>]],
              max_queue_size = 500\<rparr> 7))
      \<and> 0 \<le> (2::int)
      \<and> 2 < int (length (queue_of \<lparr>queues = [7 \<mapsto> [\<lparr>song_info = ''a'', requester = ''u''\<rparr>,
                \<lparr>song_info = ''b'', requester = ''u''\<rparr>, \<lparr>song_info = ''c'', requester = ''v''\<rparr>]],
              max_queue_size = 500\<rparr> 7)))
   \<and> fst (move_song \<lparr>queues = [7 \<mapsto> [\<lparr>song_info = ''a'', requester = ''u''\<rparr>,
                \<lparr>song_info = ''b'', requester = ''u''\<rparr>, \<lparr>song_info = ''c'', requester = ''v''\<rparr>]],
              max_queue_size = 500\<rparr> 7 0 2) = Inr True
   \<and> queue_of (snd (move_song \<lparr>queues = [7 \<mapsto> [\<lparr>song_info = ''a'', requester = ''u''\<rparr>,
                \<lparr>song_info = ''b'', requester = ''u''\<rparr>, \<lparr>song_info = ''c'', requester = ''v''\<rparr>]],
              max_queue_size = 500\<rparr> 7 0 2)) 7 ! 2 = \<lparr>song_info = ''a'', requester = ''u''\<rparr>
   \<and> \<not> (3 < int (length (queue_of \<lparr>queues = [7 \<mapsto> [\<lparr>song_info = ''a'', requester = ''u''\<rparr>,
                \<lparr>song_info = ''b'', requester = ''u''\<rparr>, \<lparr>song_info = ''c'', requester = ''v''\<rparr>]],
              max_queue_size = 500\<rparr> 7)))
   \<and> fst (move_song \<lparr>queues = [7 \<mapsto> [\<lparr>song_info = ''a'', requester = ''u''\<rparr>,
                \<lparr>song_info = ''b'', requester = ''u''\<rparr>, \<lparr>song_info = ''c'', requester = ''v''\<rparr>]],
              max_queue_size = 500\<rparr> 7 3 0) = Inr False"
  using move_song_places_entry [where i = 0 and j = 2 and g = 7 and
          qm = "\<lparr>queues = [7 \<mapsto> [\<lparr>song_info = ''a'', requester = ''u''\<rparr>,
                \<lparr>song_info = ''b'', requester = ''u''\<rparr>, \<lparr>song_info = ''c'', requester = ''v''\<rparr>]],
              max_queue_size = 500\<rparr>"]
        move_song_places_entry [where i = 3 and j = 0 and g = 7 and
          qm = "\<lparr>queues = [7 \<mapsto> [\<lparr>song_info = ''a'', requester = ''u''\<rparr>,
                \<lparr>song_info = ''b'', requester = ''u''\<rparr>, \<lparr>song_info = ''c'', requester = ''v''\<rparr>]],
              max_queue_size = 500\<rparr>"]
  by (simp add: queue_of_def)

section \<open>Properties of the playback state\<close>

lemma handle_cycle_fields:
  "current_songs (handle_resume (handle_pause ps g p) g r) = current_songs ps"
  "voice_clients (handle_resume (handle_pause ps g p) g r) = voice_clients ps"
  "song_start_times (handle_resume (handle_pause ps g p) g r) = song_start_times ps"
  "last_pause_time ps g = None \<Longrightarrow> last_pause_time (handle_resume (handle_pause ps g p) g r) g = None"
  "pause_durations (handle_resume (handle_pause ps g p) g r) g
     = Some ((case pause_durations ps g of None \<Rightarrow> 0 | Some d \<Rightarrow> d) + (r - p))"
  by (simp_all add: handle_resume_def handle_pause_def)

lemma cycles_fields:
  "current_songs (pause_resume_cycles ps g cycles) = current_songs ps"
  "voice_clients (pause_resume_cycles ps g cycles) = voice_clients ps"
  "song_start_times (pause_resume_cycles ps g cycles) = song_start_times ps"
  by (induction ps g cycles rule: pause_resume_cycles.induct)
     (simp_all add: handle_cycle_fields)

lemma cycles_pause_free:
  "last_pause_time ps g = None \<Longrightarrow> last_pause_time (pause_resume_cycles ps g cycles) g = None"
  by (induction ps g cycles rule: pause_resume_cycles.induct)
     (simp_all add: handle_cycle_fields)

lemma cycles_accumulate:
  "pause_durations ps g = Some d \<Longrightarrow>
   pause_durations (pause_resume_cycles ps g cycles) g = Some (d + total_pause cycles)"
proof (induction ps g cycles arbitrary: d rule: pause_resume_cycles.induct)
  case (1 ps g)
  then show ?case by (simp add: total_pause_def)
next
  case (2 ps g p r cycles)
  have "pause_durations (handle_resume (handle_pause ps g p) g r) g = Some (d + (r - p))"
    using "2.prems" by (simp add: handle_cycle_fields)
  from "2.IH" [OF this] show ?case by (simp add: total_pause_def)
qed

text \<open>
  C8. A session is started at time \<open>T0\<close> (\<^verbatim>\<open>update_song\<close>), goes through any number of
  pause/resume cycles, each recorded by \<^verbatim>\<open>handle_pause\<close> and closed by
  \<^verbatim>\<open>handle_resume\<close>, and is not paused when the progress is queried at time \<open>T\<close>:
  the elapsed time of the progress bar is \<open>T - T0 - P\<close>, with \<open>P\<close> the total time spent
  paused. (Timestamps are real numbers here; the rounding of floating point is not
  modelled.)
\<close>

theorem elapsed_accounts_for_pauses:
  assumes "voice_clients ps g = Some vc" and "\<not> is_paused vc"
  shows "create_progress_bar_elapsed (pause_resume_cycles (update_song ps g info req T0) g cycles) g now1 now2 T
           = Some (T - T0 - total_pause cycles)"
proof -
  let ?s0 = "update_song ps g info req T0"
  let ?s = "pause_resume_cycles ?s0 g cycles"
  have cs: "current_songs ?s g \<noteq> None"
    by (simp add: cycles_fields update_song_def)
  have vc: "voice_clients ?s g = Some vc"
    using assms(1) by (simp add: cycles_fields update_song_def)
  have st: "song_start_times ?s g = Some T0"
    by (simp add: cycles_fields update_song_def)
  have pd: "pause_durations ?s g = Some (0 + total_pause cycles)"
    by (rule cycles_accumulate) (simp add: update_song_def)
  have lp: "last_pause_time ?s g = None"
    by (rule cycles_pause_free) (simp add: update_song_def)
  from cs obtain song where song: "current_songs ?s g = Some song" by auto
  show ?thesis
    by (simp add: create_progress_bar_elapsed_def song vc st pd lp)
qed

theorem elapsed_accounts_for_pauses_witness:
  "voice_clients (update_voice_client (PlayerState :: string player_state) 7
       \<lparr>is_connected = True, is_playing = True, is_paused = False\<rparr>) 7
     = Some \<lparr>is_connected = True, is_playing = True, is_paused = False\<rparr>
   \<and> \<not> is_paused \<lparr>is_connected = True, is_playing = True, is_paused = False\<rparr>
   \<and> total_pause [(20, 30), (50, 55)] = 15
   \<and> create_progress_bar_elapsed
        (pause_resume_cycles
           (update_song (update_voice_client (PlayerState :: string player_state) 7
                \<lparr>is_connected = True, is_playing = True, is_paused = False\<rparr>) 7
              \<lparr>url = ''u'', title = ''t'', duration = 180, thumbnail = None,
               webpage_url = ''w'', uploader = ''up'', extracted_at = 9\<rparr> ''req'' 10)
           7 [(20, 30), (50, 55)])
        7 100 100 100 = Some 75"
  using elapsed_accounts_for_pauses [where g = 7 and ?T0.0 = 10 and T = 100 and ?now1.0 = 100
      and ?now2.0 = 100 and req = "''req''"
      and vc = "\<lparr>is_connected = True, is_playing = True, is_paused = False\<rparr>"
      and cycles = "[(20, 30), (50, 55)]"
      and info = "\<lparr>url = ''u'', title = ''t'', duration = 180, thumbnail = None,
               webpage_url = ''w'', uploader = ''up'', extracted_at = 9\<rparr>"
      and ps = "update_voice_client (PlayerState :: string player_state) 7
                \<lparr>is_connected = True, is_playing = True, is_paused = False\<rparr>"]
  by (simp add: update_voice_client_def PlayerState_def total_pause_def)

text \<open>
  C10. With no pause start recorded for the guild, \<^verbatim>\<open>handle_resume\<close> changes nothing.
  A resume leaves no pause start behind, so a second resume in a row is such a call. A
  second pause in a row overwrites the pause start, and the resume that follows accounts
  for the time since the second pause only.
\<close>

theorem resume_without_pause_is_noop:
  "(last_pause_time ps g = None \<longrightarrow> handle_resume ps g now = ps)
   \<and> handle_resume (handle_resume ps g t1) g t2 = handle_resume ps g t1
   \<and> last_pause_time (handle_pause (handle_pause ps g t1) g t2) g = Some t2
   \<and> pause_durations (handle_resume (handle_pause (handle_pause ps g t1) g t2) g t3) g
       = Some ((case pause_durations ps g of None \<Rightarrow> 0 | Some d \<Rightarrow> d) + (t3 - t2))"
proof (intro conjI impI)
  show "handle_resume ps g now = ps" if "last_pause_time ps g = None"
    using that by (simp add: handle_resume_def)
  have "last_pause_time (handle_resume ps g t1) g = None"
    by (simp add: handle_resume_def split: option.splits)
  then show "handle_resume (handle_resume ps g t1) g t2 = handle_resume ps g t1"
    by (simp add: handle_resume_def)
  show "last_pause_time (handle_pause (handle_pause ps g t1) g t2) g = Some t2"
    by (simp add: handle_pause_def)
  show "pause_durations (handle_resume (handle_pause (handle_pause ps g t1) g t2) g t3) g
       = Some ((case pause_durations ps g of None \<Rightarrow> 0 | Some d \<Rightarrow> d) + (t3 - t2))"
    by (simp add: handle_pause_def handle_resume_def)
qed

theorem resume_without_pause_is_noop_witness:
  "last_pause_time (PlayerState :: string player_state) 7 = None
   \<and> handle_resume (PlayerState :: string player_state) 7 42 = PlayerState
   \<and> pause_durations (handle_resume (handle_pause (handle_pause
          (PlayerState :: string player_state) 7 10) 7 20) 7 50) 7 = Some 30"
  using resume_without_pause_is_noop [where ps = "PlayerState :: string player_state"
      and g = 7 and now = 42 and ?t1.0 = 10 and ?t2.0 = 20 and ?t3.0 = 50]
  by (simp add: PlayerState_def)

section \<open>Properties of the cache\<close>

text \<open>
  Deleting a list of keys one after the other keeps the entries whose key is not in the
  list, in their order.
\<close>

lemma fold_delete: "fold AList.delete ks d = filter (\<lambda>p. fst p \<notin> set ks) d"
proof (induction ks arbitrary: d)
  case Nil
  then show ?case by simp
next
  case (Cons k ks)
  have "fold AList.delete (k # ks) d = filter (\<lambda>p. fst p \<notin> set ks) (AList.delete k d)"
    using Cons.IH by simp
  also have "\<dots> = filter (\<lambda>p. fst p \<notin> set (k # ks)) d"
    by (auto simp: AList.delete_eq intro: filter_cong)
  finally show ?case .
qed

text \<open>
  The keys chosen for eviction, in a dictionary (distinct keys) and with a capacity that
  is not negative: they are distinct keys of the dictionary, \<open>len - maxsize\<close> of them,
  and no entry that stays expires before an entry that goes.
\<close>

lemma oldest_keys_props:
  assumes dist: "distinct (map fst d)" and M: "0 \<le> M"
  shows "distinct (oldest_keys d M)"
    and "set (oldest_keys d M) \<subseteq> fst ` set d"
    and "length (oldest_keys d M) = nat (int (length d) - M)"
    and "\<forall>r\<in>set d. \<forall>x\<in>set d. fst r \<in> set (oldest_keys d M) \<longrightarrow> fst x \<notin> set (oldest_keys d M)
           \<longrightarrow> expires_at (snd r) \<le> expires_at (snd x)"
proof -
  define f where "f = (\<lambda>k. expires_at (the (map_of d k)))"
  define ks where "ks = sort_key f (map fst d)"
  define n where "n = nat (int (length d) - M)"
  have ok: "oldest_keys d M = take n ks"
    by (simp add: oldest_keys_def ks_def f_def n_def)
  have dks: "distinct ks" using dist by (simp add: ks_def)
  have sks: "set ks = fst ` set d" by (simp add: ks_def)
  have lks: "length ks = length d" by (simp add: ks_def)
  have n_le: "n \<le> length ks" using M by (simp add: n_def lks)
  show "distinct (oldest_keys d M)" using dks by (simp add: ok)
  show "set (oldest_keys d M) \<subseteq> fst ` set d"
    using set_take_subset [of n ks] by (simp add: ok sks)
  show "length (oldest_keys d M) = nat (int (length d) - M)"
    using n_le by (simp add: ok n_def)
  have "sorted (map f (take n ks @ drop n ks))" by (simp add: ks_def)
  then have ord: "\<forall>a\<in>set (take n ks). \<forall>b\<in>set (drop n ks). f a \<le> f b"
    unfolding map_append sorted_append by auto
  have split: "set ks = set (take n ks) \<union> set (drop n ks)"
    by (metis append_take_drop_id set_append)
  have fval: "f (fst p) = expires_at (snd p)" if "p \<in> set d" for p
  proof -
    from that have "map_of d (fst p) = Some (snd p)" using dist by simp
    then show ?thesis by (simp add: f_def)
  qed
  show "\<forall>r\<in>set d. \<forall>x\<in>set d. fst r \<in> set (oldest_keys d M) \<longrightarrow> fst x \<notin> set (oldest_keys d M)
           \<longrightarrow> expires_at (snd r) \<le> expires_at (snd x)"
  proof (intro ballI impI)
    fix r x assume r: "r \<in> set d" and x: "x \<in> set d"
      and rin: "fst r \<in> set (oldest_keys d M)" and xout: "fst x \<notin> set (oldest_keys d M)"
    from x have "fst x \<in> set ks" by (simp add: sks)
    with xout have "fst x \<in> set (drop n ks)" using split by (auto simp: ok)
    with rin ord have "f (fst r) \<le> f (fst x)" by (simp add: ok)
    then show "expires_at (snd r) \<le> expires_at (snd x)" using r x by (simp add: fval)
  qed
qed

lemma length_filter_keys:
  assumes "distinct (map fst d)" "distinct ks" "set ks \<subseteq> fst ` set d"
  shows "length (filter (\<lambda>p. fst p \<in> set ks) d) = length ks"
proof -
  have "length (filter (\<lambda>p. fst p \<in> set ks) d) = length (filter (\<lambda>k. k \<in> set ks) (map fst d))"
    by (simp add: filter_map comp_def)
  also have "\<dots> = card ({k. k \<in> set ks} \<inter> set (map fst d))"
    using assms(1) by (rule distinct_length_filter)
  also have "{k. k \<in> set ks} \<inter> set (map fst d) = set ks" using assms(3) by auto
  also have "card (set ks) = length ks" using assms(2) by (rule distinct_card)
  finally show ?thesis .
qed

lemma trim_within: "int (length d) \<le> M \<Longrightarrow> trim d M = d"
  by (simp add: trim_def)

lemma trim_overflow:
  "M < int (length d) \<Longrightarrow> trim d M = filter (\<lambda>p. fst p \<notin> set (oldest_keys d M)) d"
  by (simp add: trim_def fold_delete)

lemma distinct_trim: "distinct (map fst d) \<Longrightarrow> distinct (map fst (trim d M))"
  by (simp add: trim_def fold_delete distinct_map_filter)

lemma length_trim:
  assumes "distinct (map fst d)" "0 \<le> M"
  shows "int (length (trim d M)) \<le> M"
proof (cases "M < int (length d)")
  case False
  then show ?thesis by (simp add: trim_def)
next
  case True
  let ?K = "set (oldest_keys d M)"
  have "length (filter (\<lambda>p. fst p \<in> ?K) d) = nat (int (length d) - M)"
    using length_filter_keys [OF assms(1) oldest_keys_props(1,2) [OF assms]]
          oldest_keys_props(3) [OF assms] by simp
  moreover have "length d = length (filter (\<lambda>p. fst p \<in> ?K) d)
                   + length (filter (\<lambda>p. \<not> fst p \<in> ?K) d)"
    by (rule sum_length_filter_compl [symmetric])
  ultimately have "int (length (filter (\<lambda>p. fst p \<notin> ?K) d)) = M"
    using True assms(2) by simp
  then show ?thesis using True by (simp add: trim_overflow)
qed


text \<open>
  The three ways through \<^verbatim>\<open>get_or_compute\<close>, and what every call preserves.
\<close>

lemma get_or_compute_store:
  assumes "lookup_fresh c (generate_key fn args kwargs) now1 = None"
    and "lookup_fresh c (generate_key fn args kwargs) now2 = None"
    and "func w = (Inr v, w')"
  shows "get_or_compute c fn func args kwargs w now1 now2 now3
           = (Inr v,
              c\<lparr>misses := misses c + 1,
                cache := trim (AList.update (generate_key fn args kwargs)
                                 (CacheEntry v (ttl c) now3) (cache c)) (maxsize c)\<rparr>,
              w')"
  using assms by (simp add: get_or_compute_def Let_def)

lemma get_or_compute_raise:
  assumes "lookup_fresh c (generate_key fn args kwargs) now1 = None"
    and "lookup_fresh c (generate_key fn args kwargs) now2 = None"
    and "func w = (Inl e, w')"
  shows "get_or_compute c fn func args kwargs w now1 now2 now3
           = (Inl e, c\<lparr>misses := misses c + 1\<rparr>, w')"
  using assms by (simp add: get_or_compute_def Let_def)

lemma get_or_compute_hit:
  assumes "lookup_fresh c (generate_key fn args kwargs) now1 = Some v"
  shows "get_or_compute c fn func args kwargs w now1 now2 now3
           = (Inr v, c\<lparr>hits := hits c + 1\<rparr>, w)"
  using assms by (simp add: get_or_compute_def Let_def)

lemma get_or_compute_inv:
  assumes g: "get_or_compute c fn func args kwargs w now1 now2 now3 = (r, c', w')"
    and dist: "distinct (map fst (cache c))"
    and M: "0 \<le> maxsize c"
    and len: "int (length (cache c)) \<le> maxsize c"
  shows "distinct (map fst (cache c')) \<and> maxsize c' = maxsize c \<and> ttl c' = ttl c
           \<and> int (length (cache c')) \<le> maxsize c"
proof -
  let ?k = "generate_key fn args kwargs"
  let ?d = "\<lambda>v. AList.update ?k (CacheEntry v (ttl c) now3) (cache c)"
  have dd: "distinct (map fst (?d v))" for v using dist by (rule AList.distinct_update)
  have t1: "distinct (map fst (trim (?d v) (maxsize c)))" for v
    using dd by (rule distinct_trim)
  have t2: "int (length (trim (?d v) (maxsize c))) \<le> maxsize c" for v
    using dd M by (rule length_trim)
  show ?thesis
    using g dist len t1 t2
    by (auto simp: get_or_compute_def Let_def split: option.splits sum.splits prod.splits)
qed

lemma run_calls_inv:
  assumes "run_calls c w calls = (c', w')"
    and "distinct (map fst (cache c))"
    and "0 \<le> maxsize c"
    and "int (length (cache c)) \<le> maxsize c"
  shows "distinct (map fst (cache c')) \<and> maxsize c' = maxsize c \<and> ttl c' = ttl c
           \<and> int (length (cache c')) \<le> maxsize c"
  using assms
proof (induction c w calls rule: run_calls.induct)
  case (1 c w)
  then show ?case by simp
next
  case (2 c w func_name func args kwargs now1 now2 now3 calls)
  obtain r c1 w1 where g: "get_or_compute c func_name func args kwargs w now1 now2 now3 = (r, c1, w1)"
    by (metis prod_cases3)
  note inv1 = get_or_compute_inv [OF g "2.prems"(2,3,4)]
  have run: "run_calls c1 w1 calls = (c', w')" using "2.prems"(1) g by simp
  have "distinct (map fst (cache c')) \<and> maxsize c' = maxsize c1 \<and> ttl c' = ttl c1
           \<and> int (length (cache c')) \<le> maxsize c1"
    using "2.IH" [OF g [symmetric] refl run] inv1 "2.prems"(3) by simp
  then show ?case using inv1 by simp
qed

text \<open>
  C1. A cache is created with a capacity \<open>M \<ge> 0\<close> and goes through any sequence of
  \<^verbatim>\<open>get_or_compute\<close> calls; one more call misses and its function returns a value. After
  this insertion the cache holds at most \<open>M\<close> entries. With \<open>d\<close> the mapping right
  after the new entry is stored: if \<open>d\<close> is within the capacity nothing is removed;
  if it exceeds the capacity, exactly \<open>len d - M\<close> entries are removed, the others stay
  in their order, and every removed entry expires no later than every entry that stays.
\<close>

theorem eviction_keeps_capacity:
  assumes M: "0 \<le> M"
    and run: "run_calls (AsyncLRUCache nm M D) w0 calls = (c, w)"
    and miss1: "lookup_fresh c (generate_key fn args kwargs) now1 = None"
    and miss2: "lookup_fresh c (generate_key fn args kwargs) now2 = None"
    and ok: "func w = (Inr v, w')"
  shows "\<exists>c'. get_or_compute c fn func args kwargs w now1 now2 now3 = (Inr v, c', w')
           \<and> int (length (cache c')) \<le> M
           \<and> (let d = AList.update (generate_key fn args kwargs) (CacheEntry v D now3) (cache c)
              in (int (length d) \<le> M \<longrightarrow> cache c' = d)
               \<and> (M < int (length d) \<longrightarrow>
                    (\<exists>removed. distinct removed \<and> set removed \<subseteq> set d
                       \<and> int (length removed) = int (length d) - M
                       \<and> cache c' = filter (\<lambda>p. p \<notin> set removed) d
                       \<and> (\<forall>r\<in>set removed. \<forall>x\<in>set (cache c').
                             expires_at (snd r) \<le> expires_at (snd x)))))"
proof -
  have inv: "distinct (map fst (cache c)) \<and> maxsize c = M \<and> ttl c = D
               \<and> int (length (cache c)) \<le> M"
    using run_calls_inv [OF run] M by (simp add: AsyncLRUCache_def)
  define d where "d = AList.update (generate_key fn args kwargs) (CacheEntry v D now3) (cache c)"
  define c' where "c' = c\<lparr>misses := misses c + 1, cache := trim d M\<rparr>"
  have res: "get_or_compute c fn func args kwargs w now1 now2 now3 = (Inr v, c', w')"
    using get_or_compute_store [where func = func and w = w, OF miss1 miss2 ok] inv
    by (simp add: c'_def d_def)
  have cc: "cache c' = trim d M" by (simp add: c'_def)
  have dd: "distinct (map fst d)" unfolding d_def using inv by (simp add: AList.distinct_update)
  then have dd': "distinct d" by (simp add: distinct_map)
  have bound: "int (length (cache c')) \<le> M" using length_trim [OF dd M] by (simp add: cc)
  have within: "cache c' = d" if "int (length d) \<le> M" using that by (simp add: cc trim_within)
  have over: "\<exists>removed. distinct removed \<and> set removed \<subseteq> set d
                       \<and> int (length removed) = int (length d) - M
                       \<and> cache c' = filter (\<lambda>p. p \<notin> set removed) d
                       \<and> (\<forall>r\<in>set removed. \<forall>x\<in>set (cache c').
                             expires_at (snd r) \<le> expires_at (snd x))"
    if ov: "M < int (length d)"
  proof -
    let ?K = "set (oldest_keys d M)"
    define removed where "removed = filter (\<lambda>p. fst p \<in> ?K) d"
    note props = oldest_keys_props [OF dd M]
    have c_eq: "cache c' = filter (\<lambda>p. fst p \<notin> ?K) d" using ov by (simp add: cc trim_overflow)
    have 1: "distinct removed" using dd' by (simp add: removed_def)
    have 2: "set removed \<subseteq> set d" by (auto simp: removed_def)
    have "length removed = nat (int (length d) - M)"
      unfolding removed_def using length_filter_keys [OF dd props(1,2)] props(3) by simp
    then have 3: "int (length removed) = int (length d) - M" using ov by simp
    have 4: "cache c' = filter (\<lambda>p. p \<notin> set removed) d"
      unfolding c_eq removed_def by (rule filter_cong) auto
    have 5: "\<forall>r\<in>set removed. \<forall>x\<in>set (cache c'). expires_at (snd r) \<le> expires_at (snd x)"
      using props(4) by (auto simp: c_eq removed_def)
    from 1 2 3 4 5 show ?thesis by blast
  qed
  show ?thesis
    apply (rule exI [of _ c'])
    unfolding Let_def d_def [symmetric]
    using res bound within over by blast
qed

theorem eviction_keeps_capacity_witness:
  "0 \<le> (2::int)
   \<and> run_calls (AsyncLRUCache ''youtube'' 2 100) (0::nat)
        [(''f'', Pair (Inr (1::nat) :: string + nat) \<circ> Suc, [''k1''], [], 0, 0, 0),
         (''f'', Pair (Inr 2) \<circ> Suc, [''k2''], [], 10, 10, 10)]
       = (\<lparr>name = ''youtube'',
            cache = [(''f:k1:'', \<lparr>cvalue = 1, expires_at = 100\<rparr>),
                     (''f:k2:'', \<lparr>cvalue = 2, expires_at = 110\<rparr>)],
            maxsize = 2, ttl = 100, hits = 0, misses = 2, last_cleanup = 0\<rparr>, 2)
   \<and> lookup_fresh \<lparr>name = ''youtube'',
            cache = [(''f:k1:'', \<lparr>cvalue = 1::nat, expires_at = 100\<rparr>),
                     (''f:k2:'', \<lparr>cvalue = 2, expires_at = 110\<rparr>)],
            maxsize = 2, ttl = 100, hits = 0, misses = 2, last_cleanup = 0\<rparr>
          (generate_key ''f'' [''k3''] []) 20 = None
   \<and> (Pair (Inr (3::nat) :: string + nat) \<circ> Suc) 2 = (Inr 3, 3)
   \<and> get_or_compute \<lparr>name = ''youtube'',
            cache = [(''f:k1:'', \<lparr>cvalue = 1, expires_at = 100\<rparr>),
                     (''f:k2:'', \<lparr>cvalue = 2, expires_at = 110\<rparr>)],
            maxsize = 2, ttl = 100, hits = 0, misses = 2, last_cleanup = 0\<rparr>
          ''f'' (Pair (Inr (3::nat) :: string + nat) \<circ> Suc) [''k3''] [] 2 20 20 20
       = (Inr 3,
          \<lparr>name = ''youtube'',
            cache = [(''f:k2:'', \<lparr>cvalue = 2, expires_at = 110\<rparr>),
                     (''f:k3:'', \<lparr>cvalue = 3, expires_at = 120\<rparr>)],
            maxsize = 2, ttl = 100, hits = 0, misses = 3, last_cleanup = 0\<rparr>, 3)
   \<and> (\<exists>c'. get_or_compute \<lparr>name = ''youtube'',
            cache = [(''f:k1:'', \<lparr>cvalue = 1, expires_at = 100\<rparr>),
                     (''f:k2:'', \<lparr>cvalue = 2, expires_at = 110\<rparr>)],
            maxsize = 2, ttl = 100, hits = 0, misses = 2, last_cleanup = 0\<rparr>
          ''f'' (Pair (Inr (3::nat) :: string + nat) \<circ> Suc) [''k3''] [] 2 20 20 20
            = (Inr 3, c', 3) \<and> int (length (cache c')) \<le> 2)"
proof -
  let ?c = "\<lparr>name = ''youtube'',
            cache = [(''f:k1:'', \<lparr>cvalue = 1::nat, expires_at = 100\<rparr>),
                     (''f:k2:'', \<lparr>cvalue = 2, expires_at = 110\<rparr>)],
            maxsize = 2, ttl = 100, hits = 0, misses = 2, last_cleanup = 0\<rparr>"
  let ?f = "Pair (Inr (3::nat) :: string + nat) \<circ> Suc"
  have key: "generate_key ''f'' [a] [] = ''f:'' @ a @ '':''" for a
    by (simp add: generate_key_def)
  have h0: "0 \<le> (2::int)" by simp
  have h1: "run_calls (AsyncLRUCache ''youtube'' 2 100) (0::nat)
        [(''f'', Pair (Inr (1::nat) :: string + nat) \<circ> Suc, [''k1''], [], 0, 0, 0),
         (''f'', Pair (Inr 2) \<circ> Suc, [''k2''], [], 10, 10, 10)] = (?c, 2)"
    by (simp add: get_or_compute_def key lookup_fresh_def AsyncLRUCache_def CacheEntry_def
          trim_def Let_def)
  have h2: "lookup_fresh ?c (generate_key ''f'' [''k3''] []) 20 = None"
    by (simp add: key lookup_fresh_def)
  have h3: "?f 2 = (Inr 3, 3)" by simp
  have ev: "get_or_compute ?c ''f'' ?f [''k3''] [] 2 20 20 20
       = (Inr 3,
          \<lparr>name = ''youtube'',
            cache = [(''f:k2:'', \<lparr>cvalue = 2, expires_at = 110\<rparr>),
                     (''f:k3:'', \<lparr>cvalue = 3, expires_at = 120\<rparr>)],
            maxsize = 2, ttl = 100, hits = 0, misses = 3, last_cleanup = 0\<rparr>, 3)"
    by (simp add: get_or_compute_def key lookup_fresh_def CacheEntry_def
          trim_def oldest_keys_def Let_def)
  from eviction_keeps_capacity [where func = ?f and w = 2 and ?now3.0 = 20, OF h0 h1 h2 h2 h3]
  have "\<exists>c'. get_or_compute ?c ''f'' ?f [''k3''] [] 2 20 20 20 = (Inr 3, c', 3)
            \<and> int (length (cache c')) \<le> 2"
    by blast
  with h0 h1 h2 h3 ev show ?thesis by blast
qed

lemma lookup_fresh_later:
  "lookup_fresh c k t = None \<Longrightarrow> t \<le> t' \<Longrightarrow> lookup_fresh c k t' = None"
  by (auto simp: lookup_fresh_def is_expired_def split: option.splits if_splits)

lemma lookup_fresh_counters:
  "lookup_fresh (c\<lparr>misses := m\<rparr>) k t = lookup_fresh c k t"
  by (simp add: lookup_fresh_def)

lemma get_or_compute_invoked:
  assumes "lookup_fresh c (generate_key fn args kwargs) now1 = None"
    and "lookup_fresh c (generate_key fn args kwargs) now2 = None"
  shows "fst (get_or_compute c fn func args kwargs w now1 now2 now3) = fst (func w)"
    and "snd (snd (get_or_compute c fn func args kwargs w now1 now2 now3)) = snd (func w)"
    and "hits (fst (snd (get_or_compute c fn func args kwargs w now1 now2 now3))) = hits c"
  using assms
  by (auto simp: get_or_compute_def Let_def split: sum.splits prod.splits)

text \<open>
  The keys that the sweep of \<^verbatim>\<open>cleanup_expired\<close> collects are those of the entries that
  are expired at the reading made for them, and the mapping after the sweep is the mapping
  without these keys.
\<close>

lemma expired_keys_complete:
  "j < length d \<Longrightarrow> is_expired (snd (d ! j)) (clock (i + j))
     \<Longrightarrow> fst (d ! j) \<in> set (expired_keys d clock i)"
proof (induction d clock i arbitrary: j rule: expired_keys.induct)
  case (1 clock i)
  then show ?case by simp
next
  case (2 key entry rest clock i)
  show ?case
  proof (cases j)
    case 0
    with "2.prems" show ?thesis by simp
  next
    case (Suc j')
    with "2.prems" have "j' < length rest" "is_expired (snd (rest ! j')) (clock (Suc i + j'))"
      by simp_all
    then have "fst (rest ! j') \<in> set (expired_keys rest clock (Suc i))"
      using "2.IH" by (cases "is_expired entry (clock i)") simp_all
    then show ?thesis using Suc by simp
  qed
qed

lemma expired_keys_sound:
  "k \<in> set (expired_keys d clock i)
     \<Longrightarrow> \<exists>j<length d. fst (d ! j) = k \<and> is_expired (snd (d ! j)) (clock (i + j))"
proof (induction d clock i rule: expired_keys.induct)
  case (1 clock i)
  then show ?case by simp
next
  case (2 key entry rest clock i)
  show ?case
  proof (cases "k = key \<and> is_expired entry (clock i)")
    case True
    then show ?thesis by (intro exI [of _ 0]) simp
  next
    case False
    with "2.prems" have "k \<in> set (expired_keys rest clock (Suc i))"
      by (auto split: if_splits)
    then obtain j where "j < length rest" "fst (rest ! j) = k"
        "is_expired (snd (rest ! j)) (clock (Suc i + j))"
      using "2.IH" by (cases "is_expired entry (clock i)") auto
    then show ?thesis by (intro exI [of _ "Suc j"]) simp
  qed
qed

lemma cleanup_expired_cache:
  "cache (cleanup_expired c clock now_end)
     = filter (\<lambda>p. fst p \<notin> set (expired_keys (cache c) clock 0)) (cache c)"
  by (simp add: cleanup_expired_def fold_delete)

lemma cleanup_expired_removes:
  assumes "map_of (cache c) k = Some e" and "\<forall>i. is_expired e (clock i)"
  shows "map_of (cache (cleanup_expired c clock now_end)) k = None"
proof -
  define K where "K = set (expired_keys (cache c) clock 0)"
  from assms(1) have "(k, e) \<in> set (cache c)" by (rule map_of_SomeD)
  then obtain j where j: "j < length (cache c)" "cache c ! j = (k, e)"
    by (auto simp: in_set_conv_nth)
  have "fst (cache c ! j) \<in> set (expired_keys (cache c) clock 0)"
    using j assms(2) by (intro expired_keys_complete) simp_all
  then have "k \<in> K" using j by (simp add: K_def)
  then have "k \<notin> fst ` set (filter (\<lambda>p. fst p \<notin> K) (cache c))" by auto
  then have "map_of (filter (\<lambda>p. fst p \<notin> K) (cache c)) k = None"
    by (rule map_of_eq_None_iff [THEN iffD2])
  then show ?thesis by (simp only: cleanup_expired_cache K_def)
qed

lemma cleanup_expired_keeps:
  assumes dist: "distinct (map fst (cache c))"
    and j: "j < length (cache c)"
    and fresh: "\<not> is_expired (snd (cache c ! j)) (clock j)"
  shows "map_of (cache (cleanup_expired c clock now_end)) (fst (cache c ! j))
           = Some (snd (cache c ! j))"
proof -
  let ?d = "cache c"
  let ?K = "set (expired_keys ?d clock 0)"
  have "fst (?d ! j) \<notin> ?K"
  proof
    assume "fst (?d ! j) \<in> ?K"
    then obtain j' where j': "j' < length ?d" "fst (?d ! j') = fst (?d ! j)"
        "is_expired (snd (?d ! j')) (clock (0 + j'))"
      using expired_keys_sound by blast
    from j'(1,2) j have "map fst ?d ! j' = map fst ?d ! j" by simp
    moreover have "j' < length (map fst ?d)" "j < length (map fst ?d)" using j j'(1) by simp_all
    ultimately have "j' = j" using nth_eq_iff_index_eq [OF dist] by blast
    with j'(3) fresh show False by simp
  qed
  then have "map_of (filter (\<lambda>p. fst p \<notin> ?K) ?d) (fst (?d ! j)) = map_of ?d (fst (?d ! j))"
    by (simp add: map_of_filter [of "\<lambda>k. k \<notin> ?K"] restrict_map_def)
  moreover have "map_of ?d (fst (?d ! j)) = Some (snd (?d ! j))"
    using dist j by simp
  ultimately show ?thesis by (simp only: cleanup_expired_cache)
qed

text \<open>
  C2, amended. The claim puts the expiry at every time \<open>\<ge> T + D\<close>; \<^verbatim>\<open>is_expired\<close>
  compares with \<open>>\<close>, so the entry is expired at every time after \<open>T + D\<close> and is still
  served at \<open>T + D\<close> itself. For an entry stored at time \<open>T\<close> in a cache with ttl
  \<open>D\<close> and clock readings later than \<open>T + D\<close>: the entry is expired,
  \<^verbatim>\<open>get_or_compute\<close> is not a hit (it calls the function and returns what the function
  returns, the hit counter stays), and a \<^verbatim>\<open>cleanup_expired\<close> whose readings are all
  later than \<open>T + D\<close> removes the entry from the mapping. The sweep keeps every entry that
  is not expired at the reading made for it, so it keeps every entry that is not expired
  at any reading of the sweep. The mapping is a dictionary: each key occurs once in the
  association list.
\<close>

theorem expired_entry_is_missed_and_swept:
  assumes stored: "map_of (cache c) (generate_key fn args kwargs) = Some (CacheEntry v (ttl c) T)"
    and late1: "T + real_of_int (ttl c) < now1"
    and late2: "T + real_of_int (ttl c) < now2"
    and late_sweep: "\<forall>i. T + real_of_int (ttl c) < clock i"
    and dist: "distinct (map fst (cache c))"
  shows "is_expired (CacheEntry v (ttl c) T) now1
    \<and> fst (get_or_compute c fn func args kwargs w now1 now2 now3) = fst (func w)
    \<and> snd (snd (get_or_compute c fn func args kwargs w now1 now2 now3)) = snd (func w)
    \<and> hits (fst (snd (get_or_compute c fn func args kwargs w now1 now2 now3))) = hits c
    \<and> map_of (cache (cleanup_expired c clock now_end)) (generate_key fn args kwargs) = None
    \<and> (\<forall>j<length (cache c). \<not> is_expired (snd (cache c ! j)) (clock j)
          \<longrightarrow> map_of (cache (cleanup_expired c clock now_end)) (fst (cache c ! j))
                = Some (snd (cache c ! j)))
    \<and> (\<forall>k e. map_of (cache c) k = Some e \<and> (\<forall>i. \<not> is_expired e (clock i))
          \<longrightarrow> map_of (cache (cleanup_expired c clock now_end)) k = Some e)"
proof -
  have ex1: "is_expired (CacheEntry v (ttl c) T) now1"
    using late1 by (simp add: is_expired_def CacheEntry_def)
  have ex2: "is_expired (CacheEntry v (ttl c) T) now2"
    using late2 by (simp add: is_expired_def CacheEntry_def)
  have ex3: "\<forall>i. is_expired (CacheEntry v (ttl c) T) (clock i)"
    using late_sweep by (simp add: is_expired_def CacheEntry_def)
  have m1: "lookup_fresh c (generate_key fn args kwargs) now1 = None"
    using stored ex1 by (simp add: lookup_fresh_def)
  have m2: "lookup_fresh c (generate_key fn args kwargs) now2 = None"
    using stored ex2 by (simp add: lookup_fresh_def)
  note inv = get_or_compute_invoked [where func = func and w = w and ?now3.0 = now3, OF m1 m2]
  have sweep: "map_of (cache (cleanup_expired c clock now_end)) (generate_key fn args kwargs) = None"
    using stored ex3 by (rule cleanup_expired_removes)
  have keep: "\<forall>j<length (cache c). \<not> is_expired (snd (cache c ! j)) (clock j)
          \<longrightarrow> map_of (cache (cleanup_expired c clock now_end)) (fst (cache c ! j))
                = Some (snd (cache c ! j))"
    using dist by (blast intro: cleanup_expired_keeps)
  have keep': "map_of (cache (cleanup_expired c clock now_end)) k = Some e"
    if "map_of (cache c) k = Some e \<and> (\<forall>i. \<not> is_expired e (clock i))" for k e
  proof -
    from that have "(k, e) \<in> set (cache c)" by (auto dest: map_of_SomeD)
    then obtain j where j: "j < length (cache c)" "cache c ! j = (k, e)"
      by (auto simp: in_set_conv_nth)
    with that keep show ?thesis by fastforce
  qed
  from ex1 inv sweep keep keep' show ?thesis by blast
qed

theorem expired_entry_is_missed_and_swept_witness:
  "map_of (cache \<lparr>name = ''youtube'',
            cache = [(''f:k1:'', CacheEntry (1::nat) 100 0), (''f:k2:'', CacheEntry 2 100 50)],
            maxsize = 2, ttl = 100, hits = 0, misses = 2, last_cleanup = 0\<rparr>)
          (generate_key ''f'' [''k1''] []) = Some (CacheEntry 1 100 0)
   \<and> 0 + real_of_int 100 < (101::real)
   \<and> distinct (map fst [(''f:k1:'', CacheEntry (1::nat) 100 0), (''f:k2:'', CacheEntry 2 100 50)])
   \<and> is_expired (CacheEntry (1::nat) 100 0) 101
   \<and> fst (get_or_compute \<lparr>name = ''youtube'',
            cache = [(''f:k1:'', CacheEntry (1::nat) 100 0), (''f:k2:'', CacheEntry 2 100 50)],
            maxsize = 2, ttl = 100, hits = 0, misses = 2, last_cleanup = 0\<rparr>
          ''f'' (Pair (Inr 7 :: string + nat) \<circ> Suc) [''k1''] [] (0::nat) 101 101 101) = Inr 7
   \<and> map_of (cache (cleanup_expired \<lparr>name = ''youtube'',
            cache = [(''f:k1:'', CacheEntry (1::nat) 100 0), (''f:k2:'', CacheEntry 2 100 50)],
            maxsize = 2, ttl = 100, hits = 0, misses = 2, last_cleanup = 0\<rparr>
          (\<lambda>i. 101 + real i) 104))
          (generate_key ''f'' [''k1''] []) = None
   \<and> map_of (cache (cleanup_expired \<lparr>name = ''youtube'',
            cache = [(''f:k1:'', CacheEntry (1::nat) 100 0), (''f:k2:'', CacheEntry 2 100 50)],
            maxsize = 2, ttl = 100, hits = 0, misses = 2, last_cleanup = 0\<rparr>
          (\<lambda>i. 101 + real i) 104))
          ''f:k2:'' = Some (CacheEntry 2 100 50)"
proof -
  let ?c = "\<lparr>name = ''youtube'',
            cache = [(''f:k1:'', CacheEntry (1::nat) 100 0), (''f:k2:'', CacheEntry 2 100 50)],
            maxsize = 2, ttl = 100, hits = 0, misses = 2, last_cleanup = 0\<rparr>"
  let ?clock = "\<lambda>i. 101 + real i"
  have h1: "map_of (cache ?c) (generate_key ''f'' [''k1''] []) = Some (CacheEntry 1 (ttl ?c) 0)"
    by (simp add: generate_key_def)
  have h2: "0 + real_of_int (ttl ?c) < 101" by simp
  have h3: "\<forall>i. 0 + real_of_int (ttl ?c) < ?clock i" by simp
  have h4: "distinct (map fst (cache ?c))" by simp
  have k2: "(1::nat) < length (cache ?c)
              \<and> \<not> is_expired (snd (cache ?c ! 1)) (?clock 1)"
    by (simp add: is_expired_def CacheEntry_def)
  note inst = expired_entry_is_missed_and_swept [where func = "Pair (Inr 7 :: string + nat) \<circ> Suc"
      and w = "0::nat" and ?now3.0 = 101 and now_end = 104 and clock = ?clock, OF h1 h2 h2 h3 h4]
  from inst k2 have "map_of (cache (cleanup_expired ?c ?clock 104)) (fst (cache ?c ! 1))
      = Some (snd (cache ?c ! 1))"
    by blast
  then have "map_of (cache (cleanup_expired ?c ?clock 104)) ''f:k2:'' = Some (CacheEntry 2 100 50)"
    by simp
  with inst h1 h2 h4 show ?thesis by simp
qed

text \<open>
  C2 as stated fails at the boundary: an entry stored at time 0 with ttl 100 and read at
  time 100 is not expired, \<^verbatim>\<open>get_or_compute\<close> returns the stored value as a hit without
  calling the function, and a \<^verbatim>\<open>cleanup_expired\<close> that reads the clock at time 100
  keeps the entry.
\<close>

theorem expiry_boundary_counterexample:
  "\<not> is_expired (CacheEntry (1::nat) 100 0) (0 + 100)
   \<and> get_or_compute \<lparr>name = ''youtube'', cache = [(''f:q:'', CacheEntry (1::nat) 100 0)],
            maxsize = 2, ttl = 100, hits = 0, misses = 1, last_cleanup = 0\<rparr>
          ''f'' (Pair (Inr 7 :: string + nat) \<circ> Suc) [''q''] [] (0::nat) 100 100 100
       = (Inr 1, \<lparr>name = ''youtube'', cache = [(''f:q:'', CacheEntry (1::nat) 100 0)],
            maxsize = 2, ttl = 100, hits = 1, misses = 1, last_cleanup = 0\<rparr>, 0)
   \<and> cache (cleanup_expired \<lparr>name = ''youtube'', cache = [(''f:q:'', CacheEntry (1::nat) 100 0)],
            maxsize = 2, ttl = 100, hits = 0, misses = 1, last_cleanup = 0\<rparr> ((!) [100]) 100)
       = [(''f:q:'', CacheEntry 1 100 0)]"
  by (simp add: is_expired_def CacheEntry_def get_or_compute_def generate_key_def
        lookup_fresh_def cleanup_expired_def Let_def)

text \<open>
  C4, amended. The claim says that the mapping is left without an entry for the key; an
  expired entry already stored under the key stays where it is. When the function raises
  during \<^verbatim>\<open>get_or_compute\<close>, the call raises the same error and the mapping is left
  unchanged: nothing is stored for the failed computation. A later call (its clock
  readings not before those of the failed call) calls the function again and returns or
  raises what the function does.
\<close>

theorem failed_compute_is_not_cached:
  assumes miss1: "lookup_fresh c (generate_key fn args kwargs) now1 = None"
    and miss2: "lookup_fresh c (generate_key fn args kwargs) now2 = None"
    and fails: "func w = (Inl e, w')"
  shows "get_or_compute c fn func args kwargs w now1 now2 now3
           = (Inl e, c\<lparr>misses := misses c + 1\<rparr>, w')
    \<and> cache (c\<lparr>misses := misses c + 1\<rparr>) = cache c
    \<and> (\<forall>later1 later2 later3 w2. now1 \<le> later1 \<and> now2 \<le> later2 \<longrightarrow>
          fst (get_or_compute (c\<lparr>misses := misses c + 1\<rparr>) fn func args kwargs w2
                 later1 later2 later3) = fst (func w2)
          \<and> snd (snd (get_or_compute (c\<lparr>misses := misses c + 1\<rparr>) fn func args kwargs w2
                 later1 later2 later3)) = snd (func w2))"
proof (intro conjI allI impI)
  show "get_or_compute c fn func args kwargs w now1 now2 now3
           = (Inl e, c\<lparr>misses := misses c + 1\<rparr>, w')"
    using get_or_compute_raise [where func = func and w = w, OF miss1 miss2 fails] .
  show "cache (c\<lparr>misses := misses c + 1\<rparr>) = cache c" by simp
next
  fix later1 later2 later3 :: real and w2
  assume later: "now1 \<le> later1 \<and> now2 \<le> later2"
  let ?c1 = "c\<lparr>misses := misses c + 1\<rparr>"
  have m1: "lookup_fresh ?c1 (generate_key fn args kwargs) later1 = None"
    using lookup_fresh_later [OF miss1] later by (simp add: lookup_fresh_counters)
  have m2: "lookup_fresh ?c1 (generate_key fn args kwargs) later2 = None"
    using lookup_fresh_later [OF miss2] later by (simp add: lookup_fresh_counters)
  note inv = get_or_compute_invoked [where func = func and w = w2 and ?now3.0 = later3, OF m1 m2]
  show "fst (get_or_compute ?c1 fn func args kwargs w2 later1 later2 later3) = fst (func w2)"
    using inv(1) .
  show "snd (snd (get_or_compute ?c1 fn func args kwargs w2 later1 later2 later3)) = snd (func w2)"
    using inv(2) .
qed

theorem failed_compute_is_not_cached_witness:
  "lookup_fresh \<lparr>name = ''youtube'', cache = [(''f:q:'', CacheEntry (1::nat) 100 0)],
            maxsize = 2, ttl = 100, hits = 0, misses = 1, last_cleanup = 0\<rparr>
          (generate_key ''f'' [''q''] []) 200 = None
   \<and> (Pair (Inl ''boom'' :: string + nat) \<circ> Suc) 0 = (Inl ''boom'', 1)
   \<and> get_or_compute \<lparr>name = ''youtube'', cache = [(''f:q:'', CacheEntry (1::nat) 100 0)],
            maxsize = 2, ttl = 100, hits = 0, misses = 1, last_cleanup = 0\<rparr>
          ''f'' (Pair (Inl ''boom'' :: string + nat) \<circ> Suc) [''q''] [] 0 200 200 200
       = (Inl ''boom'',
          \<lparr>name = ''youtube'', cache = [(''f:q:'', CacheEntry (1::nat) 100 0)],
            maxsize = 2, ttl = 100, hits = 0, misses = 2, last_cleanup = 0\<rparr>, 1)
   \<and> snd (snd (get_or_compute
          \<lparr>name = ''youtube'', cache = [(''f:q:'', CacheEntry (1::nat) 100 0)],
            maxsize = 2, ttl = 100, hits = 0, misses = 2, last_cleanup = 0\<rparr>
          ''f'' (Pair (Inl ''boom'' :: string + nat) \<circ> Suc) [''q''] [] 1 300 300 300)) = 2"
proof -
  let ?c = "\<lparr>name = ''youtube'', cache = [(''f:q:'', CacheEntry (1::nat) 100 0)],
            maxsize = 2, ttl = 100, hits = 0, misses = 1, last_cleanup = 0\<rparr>"
  let ?f = "Pair (Inl ''boom'' :: string + nat) \<circ> Suc"
  have h1: "lookup_fresh ?c (generate_key ''f'' [''q''] []) 200 = None"
    by (simp add: lookup_fresh_def generate_key_def is_expired_def CacheEntry_def)
  have h2: "?f 0 = (Inl ''boom'', 1)" by simp
  note inst = failed_compute_is_not_cached [where func = ?f and w = 0 and ?now3.0 = 200,
      OF h1 h1 h2]
  from inst have "snd (snd (get_or_compute (?c\<lparr>misses := misses ?c + 1\<rparr>) ''f'' ?f [''q''] [] 1
                 300 300 300)) = snd (?f 1)"
    by force
  with inst h1 h2 show ?thesis by simp
qed

text \<open>
  C4 as stated fails when an expired entry is stored under the key: the entry of time 0
  with ttl 100 is expired at time 200, the function is called and raises, and the mapping
  still holds the entry for the key.
\<close>

theorem failed_compute_keeps_stale_entry:
  "get_or_compute \<lparr>name = ''youtube'', cache = [(''f:q:'', CacheEntry (1::nat) 100 0)],
            maxsize = 2, ttl = 100, hits = 0, misses = 1, last_cleanup = 0\<rparr>
          ''f'' (Pair (Inl ''boom'' :: string + nat)) [''q''] [] (0::nat) 200 200 200
     = (Inl ''boom'',
        \<lparr>name = ''youtube'', cache = [(''f:q:'', CacheEntry (1::nat) 100 0)],
            maxsize = 2, ttl = 100, hits = 0, misses = 2, last_cleanup = 0\<rparr>, 0)
   \<and> map_of (cache (fst (snd (get_or_compute
          \<lparr>name = ''youtube'', cache = [(''f:q:'', CacheEntry (1::nat) 100 0)],
            maxsize = 2, ttl = 100, hits = 0, misses = 1, last_cleanup = 0\<rparr>
          ''f'' (Pair (Inl ''boom'' :: string + nat)) [''q''] [] (0::nat) 200 200 200))))
        (generate_key ''f'' [''q''] []) = Some (CacheEntry 1 100 0)"
  by (simp add: get_or_compute_def generate_key_def lookup_fresh_def is_expired_def
        CacheEntry_def Let_def)

text \<open>
  C9, amended. The claim has the fallback for any error that the cache call raises; the
  handler is \<^verbatim>\<open>except Exception\<close>, which a cancellation
  (\<^verbatim>\<open>asyncio.CancelledError\<close>) passes. \<^verbatim>\<open>extract_song_info\<close> goes through
  \<^verbatim>\<open>get_or_compute\<close> of the cache. When that call raises an \<^verbatim>\<open>Exception\<close>, the error
  is dropped and the result is that of one direct call of the extraction, its value or its
  own error; the cache is as the failed call left it. When the cache call returns, its
  value is the result. When it raises something that is not an \<^verbatim>\<open>Exception\<close>, that is
  raised and the extraction is not called again. In particular, on a miss whose extraction
  raises an \<^verbatim>\<open>Exception\<close>, the extraction runs a second time and only the miss counter
  of the cache has changed.
\<close>

theorem extract_song_info_falls_back:
  "(get_or_compute youtube_cache ''_extract_song_info_impl'' (impl query) [query] []
        w now1 now2 now3 = (Inl (Exception cache_error), c', w')
      \<longrightarrow> extract_song_info youtube_cache impl query w now1 now2 now3
            = (fst (impl query w'), c', snd (impl query w')))
   \<and> (get_or_compute youtube_cache ''_extract_song_info_impl'' (impl query) [query] []
        w now1 now2 now3 = (Inr info, c', w')
      \<longrightarrow> extract_song_info youtube_cache impl query w now1 now2 now3 = (Inr info, c', w'))
   \<and> (get_or_compute youtube_cache ''_extract_song_info_impl'' (impl query) [query] []
        w now1 now2 now3 = (Inl (BaseException b), c', w')
      \<longrightarrow> extract_song_info youtube_cache impl query w now1 now2 now3
            = (Inl (BaseException b), c', w'))
   \<and> (lookup_fresh youtube_cache (generate_key ''_extract_song_info_impl'' [query] []) now1 = None
      \<and> lookup_fresh youtube_cache (generate_key ''_extract_song_info_impl'' [query] []) now2 = None
      \<and> impl query w = (Inl (Exception e), w1)
      \<longrightarrow> extract_song_info youtube_cache impl query w now1 now2 now3
            = (fst (impl query w1), youtube_cache\<lparr>misses := misses youtube_cache + 1\<rparr>,
               snd (impl query w1)))"
proof (intro conjI impI)
  assume "get_or_compute youtube_cache ''_extract_song_info_impl'' (impl query) [query] []
        w now1 now2 now3 = (Inl (Exception cache_error), c', w')"
  then show "extract_song_info youtube_cache impl query w now1 now2 now3
            = (fst (impl query w'), c', snd (impl query w'))"
    by (simp add: extract_song_info_def split: prod.splits)
next
  assume "get_or_compute youtube_cache ''_extract_song_info_impl'' (impl query) [query] []
        w now1 now2 now3 = (Inr info, c', w')"
  then show "extract_song_info youtube_cache impl query w now1 now2 now3 = (Inr info, c', w')"
    by (simp add: extract_song_info_def)
next
  assume "get_or_compute youtube_cache ''_extract_song_info_impl'' (impl query) [query] []
        w now1 now2 now3 = (Inl (BaseException b), c', w')"
  then show "extract_song_info youtube_cache impl query w now1 now2 now3
            = (Inl (BaseException b), c', w')"
    by (simp add: extract_song_info_def)
next
  assume a: "lookup_fresh youtube_cache (generate_key ''_extract_song_info_impl'' [query] []) now1 = None
      \<and> lookup_fresh youtube_cache (generate_key ''_extract_song_info_impl'' [query] []) now2 = None
      \<and> impl query w = (Inl (Exception e), w1)"
  have "get_or_compute youtube_cache ''_extract_song_info_impl'' (impl query) [query] []
        w now1 now2 now3
          = (Inl (Exception e), youtube_cache\<lparr>misses := misses youtube_cache + 1\<rparr>, w1)"
    using a by (intro get_or_compute_raise) simp_all
  then show "extract_song_info youtube_cache impl query w now1 now2 now3
            = (fst (impl query w1), youtube_cache\<lparr>misses := misses youtube_cache + 1\<rparr>,
               snd (impl query w1))"
    by (simp add: extract_song_info_def split: prod.splits)
qed

theorem extract_song_info_falls_back_witness:
  "lookup_fresh (AsyncLRUCache ''youtube'' 100 3600 :: string async_lru_cache)
       (generate_key ''_extract_song_info_impl'' [''song''] []) 5 = None
   \<and> (\<lambda>q w. (if w = 0 then Inl (Exception ''timeout'') else Inr (q @ ''!''), Suc w))
         ''song'' (0::nat)
       = (Inl (Exception ''timeout'') :: string raised + string, 1)
   \<and> extract_song_info (AsyncLRUCache ''youtube'' 100 3600)
        (\<lambda>q w. (if w = 0 then Inl (Exception ''timeout'') else Inr (q @ ''!''), Suc w))
        ''song'' (0::nat) 5 5 5
       = (Inr ''song!'' :: string raised + string,
          \<lparr>name = ''youtube'', cache = [], maxsize = 100, ttl = 3600, hits = 0, misses = 1,
           last_cleanup = 0\<rparr>, 2)"
proof -
  let ?impl = "\<lambda>q w. (if w = 0 then Inl (Exception ''timeout'') else Inr (q @ ''!''), Suc w)
                 :: (string raised + string) \<times> nat"
  let ?c = "AsyncLRUCache ''youtube'' 100 3600 :: string async_lru_cache"
  have h1: "lookup_fresh ?c (generate_key ''_extract_song_info_impl'' [''song''] []) 5 = None"
    by (simp add: lookup_fresh_def AsyncLRUCache_def)
  have h2: "?impl ''song'' 0 = (Inl (Exception ''timeout''), 1)" by simp
  from extract_song_info_falls_back [where impl = ?impl and query = "''song''" and w = 0
      and youtube_cache = ?c and ?now1.0 = 5 and ?now2.0 = 5 and ?now3.0 = 5
      and e = "''timeout''" and ?w1.0 = 1] h1 h2
  have "extract_song_info ?c ?impl ''song'' 0 5 5 5
          = (fst (?impl ''song'' 1), ?c\<lparr>misses := misses ?c + 1\<rparr>, snd (?impl ''song'' 1))"
    by blast
  with h1 h2 show ?thesis by (simp add: AsyncLRUCache_def)
qed

text \<open>
  C9 as stated fails when the cache call is cancelled: the extraction raises
  \<^verbatim>\<open>asyncio.CancelledError\<close> inside \<^verbatim>\<open>get_or_compute\<close>, \<^verbatim>\<open>extract_song_info\<close>
  raises it too, and the extraction has been called once, not twice.
\<close>

theorem extract_song_info_cancelled:
  "extract_song_info (AsyncLRUCache ''youtube'' 100 3600 :: string async_lru_cache)
       cancelled_extraction ''song'' 0 5 5 5
     = (Inl (BaseException ''CancelledError''),
        \<lparr>name = ''youtube'', cache = [], maxsize = 100, ttl = 3600, hits = 0, misses = 1,
         last_cleanup = 0\<rparr>, 1)"
  by (simp add: extract_song_info_def get_or_compute_def lookup_fresh_def AsyncLRUCache_def
        cancelled_extraction_def Let_def)

section \<open>Properties of the reconnection driver\<close>
















end
